theory Spec2Isabelle
  imports Main
begin

section \<open>Python values used by the script\<close>

text \<open>
  A Python \<open>str\<close> is modelled as a \<open>string\<close>, each \<open>char\<close> standing for one code point
  below 256. \<open>str.strip()\<close> without argument removes leading and trailing whitespace;
  below 256 the whitespace code points are 9 to 13, 28 to 32, 133 and 160.
\<close>

definition isspace :: "char \<Rightarrow> bool" where
  "isspace c = (let n = (of_char c :: nat)
                in (9 \<le> n \<and> n \<le> 13) \<or> (28 \<le> n \<and> n \<le> 32) \<or> n = 133 \<or> n = 160)"

definition strip :: "string \<Rightarrow> string" where
  "strip s = rev (dropWhile isspace (rev (dropWhile isspace s)))"

text \<open>Truthiness of an optional string: \<open>None\<close> and the empty string are false.\<close>

fun truthy :: "string option \<Rightarrow> bool" where
  "truthy None = False"
| "truthy (Some s) = (s \<noteq> [])"

text \<open>Decimal rendering of an integer inside an f-string.\<close>

fun str_nat :: "nat \<Rightarrow> string" where
  "str_nat n = (if n < 10 then [char_of (48 + n)]
                else str_nat (n div 10) @ [char_of (48 + n mod 10)])"

declare str_nat.simps [simp del]

definition str_int :: "int \<Rightarrow> string" where
  "str_int i = (if i < 0 then CHR ''-'' # str_nat (nat (- i)) else str_nat (nat i))"

section \<open>The regular expressions of \<open>re\<close> that the script uses\<close>

text \<open>
  A backtracking matcher for the constructs that occur in the script's pattern: literal
  text, a character class given by ranges, sequence, alternation, the greedy optional
  \<open>?\<close>, the greedy \<open>+\<close> on a class, and the capturing group 1. \<open>rmatch r s\<close> lists, in
  the order in which the backtracking engine tries them, the ways \<open>r\<close> matches a prefix
  of \<open>s\<close>: each is the rest of the input with the text captured by group 1, if any.
\<close>

datatype regex =
    Str string
  | Cls "(char \<times> char) list"
  | Seq regex regex
  | Alt regex regex
  | Opt regex
  | Plus "(char \<times> char) list"
  | Group regex

definition in_class :: "(char \<times> char) list \<Rightarrow> char \<Rightarrow> bool" where
  "in_class rs c = list_ex (\<lambda>(lo, hi). (of_char lo :: nat) \<le> of_char c \<and> (of_char c :: nat) \<le> of_char hi) rs"

definition starts_with :: "string \<Rightarrow> string \<Rightarrow> bool" where
  "starts_with s p = (take (length p) s = p)"

fun rmatch :: "regex \<Rightarrow> string \<Rightarrow> (string \<times> string option) list" where
  "rmatch (Str p) s = (if starts_with s p then [(drop (length p) s, None)] else [])"
| "rmatch (Cls rs) s = (case s of [] \<Rightarrow> [] | c # t \<Rightarrow> if in_class rs c then [(t, None)] else [])"
| "rmatch (Seq a b) s =
     concat (map (\<lambda>(s1, g1). map (\<lambda>(s2, g2). (s2, case g2 of None \<Rightarrow> g1 | Some x \<Rightarrow> Some x))
                                  (rmatch b s1))
                 (rmatch a s))"
| "rmatch (Alt a b) s = rmatch a s @ rmatch b s"
| "rmatch (Opt a) s = rmatch a s @ [(s, None)]"
| "rmatch (Plus rs) s =
     map (\<lambda>k. (drop k s, None)) (rev [1 ..< Suc (length (takeWhile (in_class rs) s))])"
| "rmatch (Group a) s =
     map (\<lambda>(s1, g). (s1, Some (take (length s - length s1) s))) (rmatch a s)"

text \<open>
  \<open>re.search\<close> tries the start positions from left to right and keeps the first match
  the engine finds; the result is what \<open>match.group(1)\<close> would return on it.
\<close>

fun re_search :: "regex \<Rightarrow> string \<Rightarrow> string option option" where
  "re_search r [] = (case rmatch r [] of [] \<Rightarrow> None | (rest, g) # _ \<Rightarrow> Some g)"
| "re_search r (c # t) =
     (case rmatch r (c # t) of [] \<Rightarrow> re_search r t | (rest, g) # _ \<Rightarrow> Some g)"

text \<open>The class \<open>[A-Za-z0-9_-]\<close>.\<close>

definition ident_class :: "(char \<times> char) list" where
  "ident_class = [(CHR ''A'', CHR ''Z''), (CHR ''a'', CHR ''z''), (CHR ''0'', CHR ''9''),
                  (CHR ''_'', CHR ''_''), (CHR ''-'', CHR ''-'')]"

text \<open>
  \<^verbatim>\<open>(?:https?://)?(?:www\.)?instagram\.com/(?:p|reel|tv)/([A-Za-z0-9_-]+)\<close>
\<close>

definition pattern :: regex where
  "pattern =
     Seq (Opt (Seq (Str ''http'') (Seq (Opt (Str ''s'')) (Str ''://''))))
    (Seq (Opt (Str ''www.''))
    (Seq (Str ''instagram.com/'')
    (Seq (Alt (Str ''p'') (Alt (Str ''reel'') (Str ''tv'')))
    (Seq (Str ''/'')
         (Group (Plus ident_class))))))"

definition extract_shortcode_from_url :: "string \<Rightarrow> string option" where
  "extract_shortcode_from_url url =
     (case re_search pattern (strip url) of
        Some g \<Rightarrow> g
      | None \<Rightarrow> None)"

section \<open>Exceptions, posts and the observable world\<close>

text \<open>
  The exceptions the script distinguishes, each with the text \<open>str(e)\<close> gives.
  \<open>KeyboardInterrupt\<close> and \<open>SystemExit\<close> are not subclasses of \<open>Exception\<close>, so an
  \<open>except Exception\<close> clause lets them pass.
\<close>

datatype exn =
    BadCredentialsException string
  | ConnectionException string
  | ProfileNotExistsException string
  | BadResponseException string
  | OtherException string
  | KeyboardInterrupt
  | SystemExit int

fun is_Exception :: "exn \<Rightarrow> bool" where
  "is_Exception KeyboardInterrupt = False"
| "is_Exception (SystemExit n) = False"
| "is_Exception e = True"

fun str_exn :: "exn \<Rightarrow> string" where
  "str_exn (BadCredentialsException m) = m"
| "str_exn (ConnectionException m) = m"
| "str_exn (ProfileNotExistsException m) = m"
| "str_exn (BadResponseException m) = m"
| "str_exn (OtherException m) = m"
| "str_exn KeyboardInterrupt = []"
| "str_exn (SystemExit n) = str_int n"

record post =
  shortcode :: string
  date :: string
  owner_username :: string

text \<open>
  Every call the script makes to the library is recorded with its arguments and its
  outcome: a login, an element handed out by the profile's post iterator, a
  \<open>Post.from_shortcode\<close>, and a \<open>download_post\<close> with its target directory and the
  \<open>filename_pattern\<close> the loader had at that moment.
\<close>

datatype event =
    Login string string
  | Pulled post
  | Lookup string
  | Download post string string "exn option"

record world =
  out :: "string list"
  filename_pattern :: string
  trace :: "event list"

definition print :: "string \<Rightarrow> world \<Rightarrow> world" where
  "print line w = w\<lparr>out := out w @ [line]\<rparr>"

definition record_event :: "event \<Rightarrow> world \<Rightarrow> world" where
  "record_event ev w = w\<lparr>trace := trace w @ [ev]\<rparr>"

text \<open>
  What lies outside the script: the library, the terminal and the file system. An answer
  may depend on everything that happened before, so each one takes the world.
  The post iterator of a profile is the list of what successive \<open>next\<close> calls give: a
  post, or an exception raised while fetching a page.
\<close>

record env =
  getpass :: "string \<Rightarrow> string"
  login :: "world \<Rightarrow> string \<Rightarrow> string \<Rightarrow> exn option"
  from_username :: "world \<Rightarrow> string \<Rightarrow> exn + (exn + post) list"
  from_shortcode :: "world \<Rightarrow> string \<Rightarrow> exn + post"
  download_post :: "world \<Rightarrow> post \<Rightarrow> string \<Rightarrow> exn option"
  path_exists :: "string \<Rightarrow> bool"
  read_lines :: "string \<Rightarrow> exn + string list"

text \<open>The parsed command line, as \<open>setup_argument_parser\<close> declares it.\<close>

record args =
  username :: "string option"
  target :: "string option"
  count :: int
  directory :: string
  posts_only :: bool
  shortcode_arg :: "string option"
  post_url :: "string option"
  shortcodes_file :: "string option"

section \<open>The script\<close>

text \<open>
  \<open>create_instance\<close> builds a fresh loader; no \<open>filename_pattern\<close> is passed, so the loader
  starts with the library's default pattern.
\<close>

definition default_filename_pattern :: string where
  "default_filename_pattern = ''{date_utc}_UTC''"

definition create_instance :: "env \<Rightarrow> string option \<Rightarrow> world \<Rightarrow> world \<times> (exn + unit)" where
  "create_instance E uname w =
     (let w0 = w\<lparr>filename_pattern := default_filename_pattern\<rparr> in
      if truthy uname then
        (let u = the uname;
             password = getpass E (''Enter password for '' @ u @ '': '');
             w1 = record_event (Login u password) w0
         in case login E w0 u password of
              None \<Rightarrow> (print (''Successfully logged in as '' @ u) w1, Inr ())
            | Some (BadCredentialsException m) \<Rightarrow>
                (print ''Error: Invalid credentials'' w1, Inl (SystemExit 1))
            | Some (ConnectionException m) \<Rightarrow>
                (print ''Error: Connection error during login'' w1, Inl (SystemExit 1))
            | Some e \<Rightarrow> (w1, Inl e))
      else (w0, Inr ()))"

text \<open>
  The \<open>for\<close> loop of \<open>download_profile_posts\<close>: the iterator hands out the next post, then
  the cap is tested, then the post is downloaded inside its own \<open>try\<close>.
\<close>

fun posts_loop :: "env \<Rightarrow> int \<Rightarrow> (exn + post) list \<Rightarrow> int \<Rightarrow> world \<Rightarrow> world \<times> (exn + int)" where
  "posts_loop E cnt [] downloaded w = (w, Inr downloaded)"
| "posts_loop E cnt (Inl e # rest) downloaded w = (w, Inl e)"
| "posts_loop E cnt (Inr p # rest) downloaded w =
     (let w0 = record_event (Pulled p) w in
      if cnt > 0 \<and> downloaded \<ge> cnt then (w0, Inr downloaded)
      else
        (let w1 = print (''Downloading post '' @ shortcode p @ '' from '' @ date p) w0;
             post_dir = shortcode p;
             orig_pattern = filename_pattern w1;
             w2 = w1\<lparr>filename_pattern := shortcode p\<rparr>;
             r = download_post E w2 p post_dir;
             w3 = record_event (Download p post_dir (filename_pattern w2) r) w2
         in case r of
              None \<Rightarrow> posts_loop E cnt rest (downloaded + 1) (w3\<lparr>filename_pattern := orig_pattern\<rparr>)
            | Some e \<Rightarrow>
                if is_Exception e
                then posts_loop E cnt rest downloaded
                       (print (''Error downloading post '' @ shortcode p @ '': '' @ str_exn e) w3)
                else (w3, Inl e)))"

definition download_profile_posts ::
  "env \<Rightarrow> string \<Rightarrow> string \<Rightarrow> int \<Rightarrow> bool \<Rightarrow> world \<Rightarrow> world \<times> (exn + unit)" where
  "download_profile_posts E target_profile save_dir cnt p_only w =
     (let handler = (\<lambda>e w'.
            case e of
              ProfileNotExistsException m \<Rightarrow>
                (print (''Error: Profile @'' @ target_profile @ '' does not exist or is private'') w',
                 Inl (SystemExit 1))
            | _ \<Rightarrow> if is_Exception e then (print (''Error: '' @ str_exn e) w', Inl (SystemExit 1))
                   else (w', Inl e))
      in case from_username E w target_profile of
           Inl e \<Rightarrow> handler e w
         | Inr posts \<Rightarrow>
             (let w1 = print (''Downloading posts from @'' @ target_profile @ ''...'') w
              in case posts_loop E cnt posts 0 w1 of
                   (w2, Inl e) \<Rightarrow> handler e w2
                 | (w2, Inr downloaded) \<Rightarrow>
                     (print (''Successfully downloaded '' @ str_int downloaded @ '' posts from @''
                             @ target_profile) w2, Inr ())))"

definition download_post_by_shortcode ::
  "env \<Rightarrow> string \<Rightarrow> string \<Rightarrow> world \<Rightarrow> world \<times> (exn + bool)" where
  "download_post_by_shortcode E sc save_dir w =
     (let w0 = print (''Downloading post with shortcode '' @ sc @ ''...'') w;
          w1 = record_event (Lookup sc) w0
      in case from_shortcode E w0 sc of
           Inl (BadResponseException m) \<Rightarrow>
             (print (''Error: Post with shortcode '' @ sc @ '' does not exist or is not accessible'') w1,
              Inr False)
         | Inl e \<Rightarrow> if is_Exception e then (print (''Error: '' @ str_exn e) w1, Inr False)
                    else (w1, Inl e)
         | Inr p \<Rightarrow>
             (let w2 = print (''Downloading post from '' @ owner_username p @ '' posted on '' @ date p) w1;
                  orig_pattern = filename_pattern w2;
                  w3 = w2\<lparr>filename_pattern := sc\<rparr>;
                  post_dir = sc;
                  r = download_post E w3 p post_dir;
                  w4 = record_event (Download p post_dir (filename_pattern w3) r) w3
              in case r of
                   None \<Rightarrow>
                     (print (''Successfully downloaded post '' @ sc) (w4\<lparr>filename_pattern := orig_pattern\<rparr>),
                      Inr True)
                 | Some e \<Rightarrow>
                     if is_Exception e
                     then (print (''Error downloading post '' @ sc @ '': '' @ str_exn e) w4, Inr False)
                     else (w4, Inl e)))"

text \<open>The \<open>for\<close> loop of \<open>download_shortcodes_from_file\<close>; the result of each call is dropped.\<close>

fun shortcodes_loop :: "env \<Rightarrow> string list \<Rightarrow> world \<Rightarrow> world \<times> (exn + unit)" where
  "shortcodes_loop E [] w = (w, Inr ())"
| "shortcodes_loop E (sc # rest) w =
     (case download_post_by_shortcode E sc ''.'' w of
        (w', Inl e) \<Rightarrow> (w', Inl e)
      | (w', Inr ok) \<Rightarrow> shortcodes_loop E rest w')"

definition download_shortcodes_from_file :: "env \<Rightarrow> string \<Rightarrow> world \<Rightarrow> world \<times> (exn + unit)" where
  "download_shortcodes_from_file E filepath w =
     (if \<not> path_exists E filepath
      then (print (''Shortcode file '' @ [CHR 0x27] @ filepath @ [CHR 0x27] @ '' not found.'') w, Inr ())
      else case read_lines E filepath of
             Inl e \<Rightarrow> (w, Inl e)
           | Inr lines \<Rightarrow>
               (let shortcodes = map strip (filter (\<lambda>line. strip line \<noteq> []) lines);
                    w1 = print (''Found '' @ str_int (int (length shortcodes)) @ '' shortcodes in ''
                                @ filepath @ ''. Starting download...'') w
                in case shortcodes_loop E shortcodes w1 of
                     (w2, Inl e) \<Rightarrow> (w2, Inl e)
                   | (w2, Inr u) \<Rightarrow> (print ''All shortcodes processed.'' w2, Inr ())))"

text \<open>
  \<open>main\<close>, from the parsed arguments on. \<open>parser.error\<close> writes the usage text to the
  standard error stream, which the world does not record, and exits with status 2.
\<close>

definition main :: "env \<Rightarrow> args \<Rightarrow> world \<Rightarrow> world \<times> (exn + unit)" where
  "main E a w =
     (if truthy (shortcodes_file a) then
        (case create_instance E (username a) w of
           (w1, Inl e) \<Rightarrow> (w1, Inl e)
         | (w1, Inr u) \<Rightarrow> download_shortcodes_from_file E (the (shortcodes_file a)) w1)
      else if \<not> (truthy (target a) \<or> truthy (shortcode_arg a) \<or> truthy (post_url a)) then
        (w, Inl (SystemExit 2))
      else
        (case create_instance E (username a) w of
           (w1, Inl e) \<Rightarrow> (w1, Inl e)
         | (w1, Inr u) \<Rightarrow>
             if truthy (post_url a) then
               (let sc = extract_shortcode_from_url (the (post_url a)) in
                if truthy sc then
                  (case download_post_by_shortcode E (the sc) (directory a) w1 of
                     (w2, Inl e) \<Rightarrow> (w2, Inl e)
                   | (w2, Inr ok) \<Rightarrow> (w2, Inr ()))
                else
                  (print ''Error: Could not extract shortcode from the provided URL'' w1,
                   Inl (SystemExit 1)))
             else if truthy (shortcode_arg a) then
               (case download_post_by_shortcode E (the (shortcode_arg a)) (directory a) w1 of
                  (w2, Inl e) \<Rightarrow> (w2, Inl e)
                | (w2, Inr ok) \<Rightarrow> (w2, Inr ()))
             else
               download_profile_posts E (the (target a)) (directory a) (count a) (posts_only a) w1))"

text \<open>
  The block under \<open>if __name__ == "__main__"\<close>: the world the process leaves and its exit
  status. An exception nobody catches ends the process with status 1.
\<close>

definition script :: "env \<Rightarrow> args \<Rightarrow> world \<Rightarrow> world \<times> int" where
  "script E a w =
     (case main E a w of
        (w', Inr u) \<Rightarrow> (w', 0)
      | (w', Inl KeyboardInterrupt) \<Rightarrow> (print (CHR 0x0A # ''Download interrupted by user'') w', 0)
      | (w', Inl (SystemExit n)) \<Rightarrow> (w', n)
      | (w', Inl e) \<Rightarrow> (w', 1))"

section \<open>Observations on a run\<close>

text \<open>What a stretch of the trace says: the posts handed to \<open>download_post\<close>, the posts the
  iterator handed out, the shortcodes looked up, and the number of downloads that
  succeeded.\<close>

fun downloads_of :: "event list \<Rightarrow> post list" where
  "downloads_of [] = []"
| "downloads_of (Download p t pat r # evs) = p # downloads_of evs"
| "downloads_of (ev # evs) = downloads_of evs"

fun pulls_of :: "event list \<Rightarrow> post list" where
  "pulls_of [] = []"
| "pulls_of (Pulled p # evs) = p # pulls_of evs"
| "pulls_of (ev # evs) = pulls_of evs"


fun succeeded :: "event list \<Rightarrow> nat" where
  "succeeded [] = 0"
| "succeeded (Download p t pat None # evs) = Suc (succeeded evs)"
| "succeeded (ev # evs) = succeeded evs"

text \<open>The lines the profile loop prints for one call of \<open>download_post\<close>: the announcement,
  and the error report when the call raised.\<close>

fun profile_report :: "event \<Rightarrow> string list" where
  "profile_report (Download p t pat None) =
     [''Downloading post '' @ shortcode p @ '' from '' @ date p]"
| "profile_report (Download p t pat (Some e)) =
     [''Downloading post '' @ shortcode p @ '' from '' @ date p,
      ''Error downloading post '' @ shortcode p @ '': '' @ str_exn e]"
| "profile_report ev = []"

text \<open>The events a step added to the trace.\<close>

definition new_events :: "world \<Rightarrow> world \<Rightarrow> event list" where
  "new_events w w' = drop (length (trace w)) (trace w')"

text \<open>The directory a download went to is named by the post's shortcode, or by a given one.\<close>

fun target_is_shortcode :: "event \<Rightarrow> bool" where
  "target_is_shortcode (Download p t pat r) = (t = shortcode p)"
| "target_is_shortcode ev = True"

fun target_is :: "string \<Rightarrow> event \<Rightarrow> bool" where
  "target_is sc (Download p t pat r) = (t = sc)"
| "target_is sc ev = True"

text \<open>Every failure the library reports is an \<open>Exception\<close>, not an interrupt or an exit.\<close>

definition raises_only_Exceptions :: "env \<Rightarrow> bool" where
  "raises_only_Exceptions E =
     ((\<forall>w p t e. download_post E w p t = Some e \<longrightarrow> is_Exception e) \<and>
      (\<forall>w sc e. from_shortcode E w sc = Inl e \<longrightarrow> is_Exception e))"

text \<open>The input contains, somewhere, \<open>instagram.com/\<close> followed by \<open>p\<close>, \<open>reel\<close> or \<open>tv\<close>,
  a slash and a character of the identifier class.\<close>

definition has_post_path :: "string \<Rightarrow> bool" where
  "has_post_path s =
     (\<exists>pre seg c rest. s = pre @ ''instagram.com/'' @ seg @ ''/'' @ c # rest \<and>
        seg \<in> {''p'', ''reel'', ''tv''} \<and> in_class ident_class c)"


text \<open>
  What the profile loop leaves behind when it returns: \<open>evs\<close> are the events it added,
  \<open>n\<close> the number of posts it handed to \<open>download_post\<close>, \<open>d\<close> the counter it started with.
\<close>

definition loop_post ::
  "int \<Rightarrow> post list \<Rightarrow> int \<Rightarrow> world \<Rightarrow> world \<Rightarrow> event list \<Rightarrow> nat \<Rightarrow> bool" where
  "loop_post c posts d w w' evs n \<longleftrightarrow>
     trace w' = trace w @ evs \<and>
     out w' = out w @ concat (map profile_report evs) \<and>
     n \<le> length posts \<and>
     downloads_of evs = take n posts \<and>
     pulls_of evs = take (if n < length posts then Suc n else n) posts \<and>
     (n < length posts \<longrightarrow> 0 < c \<and> c \<le> d + int (succeeded evs)) \<and>
     (0 < c \<longrightarrow> d \<le> c \<longrightarrow> d + int (succeeded evs) \<le> c) \<and>
     list_all target_is_shortcode evs"



text \<open>The part of the pattern after the two optional prefixes.\<close>

definition core :: regex where
  "core = Seq (Str ''instagram.com/'')
         (Seq (Alt (Str ''p'') (Alt (Str ''reel'') (Str ''tv'')))
         (Seq (Str ''/'')
              (Group (Plus ident_class))))"

section \<open>Concrete runs\<close>

definition post_A :: post where
  "post_A = \<lparr>shortcode = ''AAA111'', date = ''2024-01-01'', owner_username = ''someone''\<rparr>"

definition post_B :: post where
  "post_B = \<lparr>shortcode = ''BBB222'', date = ''2024-01-02'', owner_username = ''someone''\<rparr>"

definition post_C :: post where
  "post_C = \<lparr>shortcode = ''CCC333'', date = ''2024-01-03'', owner_username = ''someone''\<rparr>"

text \<open>A library whose every download succeeds, and one where the download of
  \<open>AAA111\<close> raises; the only file is \<open>codes.txt\<close>, with a blank line between two shortcodes.\<close>

definition env_ok :: env where
  "env_ok = \<lparr>getpass = (\<lambda>prompt. ''secret''),
             login = (\<lambda>w u pw. None),
             from_username = (\<lambda>w name. Inr [Inr post_A, Inr post_B, Inr post_C]),
             from_shortcode = (\<lambda>w sc. Inr \<lparr>shortcode = sc, date = ''2024-01-01'',
                                            owner_username = ''someone''\<rparr>),
             download_post = (\<lambda>w p t. None),
             path_exists = (\<lambda>path. path = ''codes.txt''),
             read_lines = (\<lambda>path. if path = ''codes.txt''
                                    then Inr [''AAA111'' @ [CHR 0x0A], [CHR 0x0A], ''BBB222'' @ [CHR 0x0A]]
                                    else Inl (OtherException ''No such file or directory''))\<rparr>"

definition env_fail_A :: env where
  "env_fail_A = env_ok\<lparr>download_post :=
     (\<lambda>w p t. if shortcode p = ''AAA111'' then Some (ConnectionException ''timeout'') else None)\<rparr>"

definition world0 :: world where
  "world0 = \<lparr>out = [], filename_pattern = default_filename_pattern, trace = []\<rparr>"

definition args0 :: args where
  "args0 = \<lparr>username = None, target = None, count = 0, directory = ''downloads'',
            posts_only = False, shortcode_arg = None, post_url = None, shortcodes_file = None\<rparr>"

section \<open>What the pattern matches\<close>

lemma starts_with_iff: "starts_with s p \<longleftrightarrow> (\<exists>u. s = p @ u)"
proof
  assume "starts_with s p"
  then have "s = p @ drop (length p) s"
    by (metis append_take_drop_id starts_with_def)
  then show "\<exists>u. s = p @ u" ..
next
  assume "\<exists>u. s = p @ u"
  then show "starts_with s p"
    by (auto simp add: starts_with_def)
qed

lemma rmatch_suffix: "(u, g) \<in> set (rmatch r s) \<Longrightarrow> \<exists>p. s = p @ u"
proof (induction r arbitrary: s u g)
  case (Str p)
  then show ?case
    by (auto simp add: starts_with_iff split: if_splits)
next
  case (Cls rs)
  then show ?case
    by (auto split: list.splits if_splits)
next
  case (Seq a b)
  from Seq.prems obtain s1 g1 g2 where a: "(s1, g1) \<in> set (rmatch a s)"
    and b: "(u, g2) \<in> set (rmatch b s1)"
    by auto
  from Seq.IH(1) [OF a] obtain p1 where "s = p1 @ s1" ..
  moreover from Seq.IH(2) [OF b] obtain p2 where "s1 = p2 @ u" ..
  ultimately have "s = (p1 @ p2) @ u"
    by simp
  then show ?case ..
next
  case (Alt a b)
  then show ?case
    by auto
next
  case (Opt a)
  then show ?case
    by auto
next
  case (Plus rs)
  then obtain k where "u = drop k s"
    by auto
  then have "s = take k s @ u"
    by simp
  then show ?case ..
next
  case (Group a)
  then show ?case
    by auto
qed

lemma nonempty_Seq:
  "rmatch (Seq a b) s \<noteq> [] \<longleftrightarrow> (\<exists>u g. (u, g) \<in> set (rmatch a s) \<and> rmatch b u \<noteq> [])"
  by (force simp add: concat_eq_Nil_conv)

lemma nonempty_Seq_Str:
  "rmatch (Seq (Str p) b) s \<noteq> [] \<longleftrightarrow> (\<exists>u. s = p @ u \<and> rmatch b u \<noteq> [])"
  by (auto simp add: nonempty_Seq starts_with_iff simp del: rmatch.simps(3))

lemma nonempty_Seq_Alt:
  "rmatch (Seq (Alt a a') b) s \<noteq> [] \<longleftrightarrow>
     rmatch (Seq a b) s \<noteq> [] \<or> rmatch (Seq a' b) s \<noteq> []"
  by (auto simp add: nonempty_Seq simp del: rmatch.simps(3))

lemma nonempty_Seq_Opt:
  "rmatch b s \<noteq> [] \<Longrightarrow> rmatch (Seq (Opt a) b) s \<noteq> []"
  by (auto simp add: nonempty_Seq simp del: rmatch.simps(3))

lemma nonempty_Seq_suffix:
  assumes "rmatch (Seq a b) s \<noteq> []"
  shows "\<exists>p u. s = p @ u \<and> rmatch b u \<noteq> []"
proof -
  from assms obtain u g where "(u, g) \<in> set (rmatch a s)" and b: "rmatch b u \<noteq> []"
    by (auto simp add: nonempty_Seq simp del: rmatch.simps(3))
  then obtain p where "s = p @ u"
    by (auto dest: rmatch_suffix)
  with b show ?thesis
    by blast
qed

lemma nonempty_Group_Plus:
  "rmatch (Group (Plus rs)) s \<noteq> [] \<longleftrightarrow> (\<exists>c rest. s = c # rest \<and> in_class rs c)"
  by (cases s) auto

lemma core_match:
  "rmatch core v \<noteq> [] \<longleftrightarrow>
     (\<exists>seg c rest. v = ''instagram.com/'' @ seg @ ''/'' @ c # rest \<and>
        seg \<in> {''p'', ''reel'', ''tv''} \<and> in_class ident_class c)"
  unfolding core_def
  by (simp only: nonempty_Seq_Str nonempty_Seq_Alt nonempty_Group_Plus insert_iff empty_iff) blast

lemma pattern_core:
  "pattern = Seq (Opt (Seq (Str ''http'') (Seq (Opt (Str ''s'')) (Str ''://''))))
                 (Seq (Opt (Str ''www.'')) core)"
  by (simp add: pattern_def core_def)

lemma has_post_path_core: "has_post_path s \<longleftrightarrow> (\<exists>p t. s = p @ t \<and> rmatch core t \<noteq> [])"
  unfolding has_post_path_def core_match by blast

lemma pattern_match_core:
  assumes "rmatch pattern s \<noteq> []"
  shows "\<exists>p t. s = p @ t \<and> rmatch core t \<noteq> []"
proof -
  from assms obtain p1 u where s: "s = p1 @ u" and "rmatch (Seq (Opt (Str ''www.'')) core) u \<noteq> []"
    unfolding pattern_core by (blast dest: nonempty_Seq_suffix)
  then obtain p2 t where "u = p2 @ t" and c: "rmatch core t \<noteq> []"
    by (blast dest: nonempty_Seq_suffix)
  with s have "s = (p1 @ p2) @ t"
    by simp
  with c show ?thesis
    by blast
qed

lemma core_match_pattern: "rmatch core t \<noteq> [] \<Longrightarrow> rmatch pattern t \<noteq> []"
  unfolding pattern_core by (intro nonempty_Seq_Opt)

lemma re_search_None: "re_search r s = None \<longleftrightarrow> (\<forall>p t. s = p @ t \<longrightarrow> rmatch r t = [])"
proof (induction s)
  case Nil
  then show ?case
    by (auto split: list.splits)
next
  case (Cons c s)
  show ?case
  proof (cases "rmatch r (c # s)")
    case Nil
    have "(\<forall>p t. c # s = p @ t \<longrightarrow> rmatch r t = []) \<longleftrightarrow> (\<forall>p t. s = p @ t \<longrightarrow> rmatch r t = [])"
      using Nil by (auto simp add: Cons_eq_append_conv)
    with Nil Cons.IH show ?thesis
      by simp
  next
    case (Cons m ms)
    then have "\<not> (\<forall>p t. c # s = p @ t \<longrightarrow> rmatch r t = [])"
      by (metis append_Nil list.distinct(1))
    with Cons show ?thesis
      by (simp split: prod.splits)
  qed
qed

lemma re_search_pattern: "re_search pattern s = None \<longleftrightarrow> \<not> has_post_path s"
proof
  assume none: "re_search pattern s = None"
  show "\<not> has_post_path s"
  proof
    assume "has_post_path s"
    then obtain p t where "s = p @ t" and "rmatch core t \<noteq> []"
      unfolding has_post_path_core by blast
    with none show False
      by (auto simp add: re_search_None dest: core_match_pattern)
  qed
next
  assume no: "\<not> has_post_path s"
  show "re_search pattern s = None"
    unfolding re_search_None
  proof (intro allI impI)
    fix p t
    assume s: "s = p @ t"
    show "rmatch pattern t = []"
    proof (rule ccontr)
      assume "rmatch pattern t \<noteq> []"
      then obtain q u where "t = q @ u" and c: "rmatch core u \<noteq> []"
        by (blast dest: pattern_match_core)
      with s have "s = (p @ q) @ u"
        by simp
      with c have "has_post_path s"
        unfolding has_post_path_core by blast
      with no show False ..
    qed
  qed
qed

lemma has_post_path_Cons_space:
  assumes "isspace x"
  shows "has_post_path (x # s) \<longleftrightarrow> has_post_path s"
proof
  assume "has_post_path (x # s)"
  then obtain pre seg c rest where eq: "x # s = pre @ ''instagram.com/'' @ seg @ ''/'' @ c # rest"
    and ok: "seg \<in> {''p'', ''reel'', ''tv''}" "in_class ident_class c"
    unfolding has_post_path_def by blast
  have "pre \<noteq> []"
  proof
    assume "pre = []"
    with eq have "x = CHR ''i''"
      by simp
    with assms show False
      by (simp add: isspace_def)
  qed
  then obtain pre' where "pre = x # pre'"
    using eq by (cases pre) auto
  with eq have "s = pre' @ ''instagram.com/'' @ seg @ ''/'' @ c # rest"
    by simp
  with ok show "has_post_path s"
    unfolding has_post_path_def by blast
next
  assume "has_post_path s"
  then obtain pre seg c rest where "s = pre @ ''instagram.com/'' @ seg @ ''/'' @ c # rest"
    and ok: "seg \<in> {''p'', ''reel'', ''tv''}" "in_class ident_class c"
    unfolding has_post_path_def by blast
  then have "x # s = (x # pre) @ ''instagram.com/'' @ seg @ ''/'' @ c # rest"
    by simp
  with ok show "has_post_path (x # s)"
    unfolding has_post_path_def by blast
qed

lemma in_class_not_space: "in_class ident_class c \<Longrightarrow> \<not> isspace c"
  by (auto simp add: in_class_def ident_class_def isspace_def Let_def)

lemma has_post_path_snoc_space:
  assumes "isspace x"
  shows "has_post_path (s @ [x]) \<longleftrightarrow> has_post_path s"
proof
  assume "has_post_path (s @ [x])"
  then obtain pre seg c rest where eq: "s @ [x] = pre @ ''instagram.com/'' @ seg @ ''/'' @ c # rest"
    and ok: "seg \<in> {''p'', ''reel'', ''tv''}" "in_class ident_class c"
    unfolding has_post_path_def by blast
  have "rest \<noteq> []"
  proof
    assume "rest = []"
    with eq have "s @ [x] = (pre @ ''instagram.com/'' @ seg @ ''/'') @ [c]"
      by simp
    then have "x = c"
      by (simp only: append1_eq_conv)
    with assms ok show False
      by (auto dest: in_class_not_space)
  qed
  then have "rest = butlast rest @ [last rest]"
    by simp
  with eq have "s @ [x] = (pre @ ''instagram.com/'' @ seg @ ''/'' @ c # butlast rest) @ [last rest]"
    by simp
  then have "s = pre @ ''instagram.com/'' @ seg @ ''/'' @ c # butlast rest"
    by (simp only: append1_eq_conv)
  with ok show "has_post_path s"
    unfolding has_post_path_def by blast
next
  assume "has_post_path s"
  then obtain pre seg c rest where "s = pre @ ''instagram.com/'' @ seg @ ''/'' @ c # rest"
    and ok: "seg \<in> {''p'', ''reel'', ''tv''}" "in_class ident_class c"
    unfolding has_post_path_def by blast
  then have "s @ [x] = pre @ ''instagram.com/'' @ seg @ ''/'' @ c # (rest @ [x])"
    by simp
  with ok show "has_post_path (s @ [x])"
    unfolding has_post_path_def by blast
qed

lemma has_post_path_dropWhile: "has_post_path (dropWhile isspace s) \<longleftrightarrow> has_post_path s"
  by (induction s) (simp_all add: has_post_path_Cons_space)

lemma has_post_path_strip: "has_post_path (strip s) \<longleftrightarrow> has_post_path s"
proof -
  have "has_post_path (rev (dropWhile isspace (rev t))) \<longleftrightarrow> has_post_path t" for t
    by (induction t rule: rev_induct) (simp_all add: has_post_path_snoc_space)
  then show ?thesis
    by (simp add: strip_def has_post_path_dropWhile)
qed

lemma captures_Seq:
  "\<forall>s u g. (u, g) \<in> set (rmatch b s) \<longrightarrow> g \<noteq> None \<Longrightarrow>
   \<forall>s u g. (u, g) \<in> set (rmatch (Seq a b) s) \<longrightarrow> g \<noteq> None"
  by (auto split: option.splits; blast)

lemma captures_Group: "\<forall>s u g. (u, g) \<in> set (rmatch (Group a) s) \<longrightarrow> g \<noteq> None"
  by auto

lemma pattern_captures: "\<forall>s u g. (u, g) \<in> set (rmatch pattern s) \<longrightarrow> g \<noteq> None"
  unfolding pattern_def by (intro captures_Seq captures_Group)

lemma re_search_Some:
  "re_search r s = Some g \<Longrightarrow> \<exists>t u. (u, g) \<in> set (rmatch r t)"
proof (induction s)
  case Nil
  then obtain u ms where "rmatch r [] = (u, g) # ms"
    by (cases "rmatch r []") (auto split: prod.splits)
  then have "(u, g) \<in> set (rmatch r [])"
    by simp
  then show ?case
    by blast
next
  case (Cons c s)
  show ?case
  proof (cases "rmatch r (c # s)")
    case Nil
    with Cons show ?thesis
      by simp
  next
    case (Cons m ms)
    with Cons.prems have "(fst m, g) \<in> set (rmatch r (c # s))"
      by (cases m) auto
    then show ?thesis
      by blast
  qed
qed

lemma extract_None: "extract_shortcode_from_url url = None \<longleftrightarrow> \<not> has_post_path url"
proof -
  have "g \<noteq> None" if "re_search pattern (strip url) = Some g" for g
    using re_search_Some [OF that] pattern_captures by blast
  then have "extract_shortcode_from_url url = None \<longleftrightarrow> re_search pattern (strip url) = None"
    by (auto simp add: extract_shortcode_from_url_def split: option.splits)
  then show ?thesis
    by (simp add: re_search_pattern has_post_path_strip)
qed





text \<open>
  C6. \<open>extract_shortcode_from_url\<close> returns \<open>None\<close> exactly for the inputs that nowhere
  contain \<open>instagram.com/\<close> followed by \<open>p\<close>, \<open>reel\<close> or \<open>tv\<close>, a slash and an identifier
  character. So an input without the \<open>p\<close>, \<open>reel\<close> or \<open>tv\<close> segment after
  \<open>instagram.com/\<close> is rejected; the pattern is searched anywhere in the input, and
  what stands before \<open>instagram.com\<close> (another host name included) is not looked at.
\<close>

theorem rejected_iff_no_post_path:
  "extract_shortcode_from_url url = None \<longleftrightarrow> \<not> has_post_path url"
  by (rule extract_None)

text \<open>A stories link has no post path and is rejected.\<close>

theorem rejected_iff_no_post_path_witness:
  "extract_shortcode_from_url ''https://www.instagram.com/stories/abc/'' = None \<and>
   \<not> has_post_path ''https://www.instagram.com/stories/abc/''"
proof -
  have "extract_shortcode_from_url ''https://www.instagram.com/stories/abc/'' = None"
    by code_simp
  with rejected_iff_no_post_path [of "''https://www.instagram.com/stories/abc/''"]
  show ?thesis
    by blast
qed

text \<open>The host of this URL is \<open>notinstagram.com\<close>, and a shortcode is returned.\<close>

theorem wrong_host_counterexample:
  "extract_shortcode_from_url ''https://notinstagram.com/p/ABC123'' = Some ''ABC123''"
  by code_simp

section \<open>The profile listing and the shortcode file\<close>




lemma succeeded_le_downloads: "succeeded evs \<le> length (downloads_of evs)"
  by (induction evs rule: succeeded.induct) simp_all



lemma posts_loop_char:
  assumes exc: "\<forall>w p t e. download_post E w p t = Some e \<longrightarrow> is_Exception e"
  shows "\<exists>w' evs n. posts_loop E c (map Inr posts) d w = (w', Inr (d + int (succeeded evs))) \<and>
           loop_post c posts d w w' evs n"
proof (induction posts arbitrary: d w)
  case Nil
  show ?case
    by (rule exI [of _ w], rule exI [of _ "[]"], rule exI [of _ 0]) (simp add: loop_post_def)
next
  case (Cons p ps)
  define w0 where "w0 = record_event (Pulled p) w"
  show ?case
  proof (cases "c > 0 \<and> d \<ge> c")
    case True
    then have "posts_loop E c (map Inr (p # ps)) d w = (w0, Inr (d + int (succeeded [Pulled p])))"
      by (simp add: w0_def)
    moreover from True have "loop_post c (p # ps) d w w0 [Pulled p] 0"
      by (simp add: loop_post_def w0_def record_event_def)
    ultimately show ?thesis
      by blast
  next
    case False
    define w1 where "w1 = print (''Downloading post '' @ shortcode p @ '' from '' @ date p) w0"
    define w2 where "w2 = w1\<lparr>filename_pattern := shortcode p\<rparr>"
    define r where "r = download_post E w2 p (shortcode p)"
    define w3 where "w3 = record_event (Download p (shortcode p) (filename_pattern w2) r) w2"
    have tr3: "trace w3 = trace w @ [Pulled p, Download p (shortcode p) (shortcode p) r]"
      by (simp add: w3_def w2_def w1_def w0_def record_event_def print_def)
    have out3: "out w3 = out w @ [''Downloading post '' @ shortcode p @ '' from '' @ date p]"
      by (simp add: w3_def w2_def w1_def w0_def record_event_def print_def)
    show ?thesis
    proof (cases r)
      case None
      define w4 where "w4 = w3\<lparr>filename_pattern := filename_pattern w1\<rparr>"
      have step: "posts_loop E c (map Inr (p # ps)) d w = posts_loop E c (map Inr ps) (d + 1) w4"
        using False None unfolding w4_def w3_def r_def w2_def w1_def w0_def
        by (auto simp add: Let_def)
      from Cons.IH [of "d + 1" w4] obtain w' evs n where
        run: "posts_loop E c (map Inr ps) (d + 1) w4 = (w', Inr (d + 1 + int (succeeded evs)))"
        and post: "loop_post c ps (d + 1) w4 w' evs n"
        by blast
      have tr4: "trace w4 = trace w3" and out4: "out w4 = out w3"
        by (simp_all add: w4_def)
      define evs0 where "evs0 = Pulled p # Download p (shortcode p) (shortcode p) None # evs"
      have res: "posts_loop E c (map Inr (p # ps)) d w = (w', Inr (d + int (succeeded evs0)))"
        using step run by (simp del: posts_loop.simps add: evs0_def)
      have "loop_post c (p # ps) d w w' evs0 (Suc n)"
        using False None post tr3 out3 tr4 out4
        by (auto simp add: loop_post_def evs0_def)
      with res show ?thesis
        by blast
    next
      case (Some e)
      with exc have ex: "is_Exception e"
        by (simp add: r_def)
      define w4 where
        "w4 = print (''Error downloading post '' @ shortcode p @ '': '' @ str_exn e) w3"
      have step: "posts_loop E c (map Inr (p # ps)) d w = posts_loop E c (map Inr ps) d w4"
        using False Some ex unfolding w4_def w3_def r_def w2_def w1_def w0_def
        by (auto simp add: Let_def)
      from Cons.IH [of d w4] obtain w' evs n where
        run: "posts_loop E c (map Inr ps) d w4 = (w', Inr (d + int (succeeded evs)))"
        and post: "loop_post c ps d w4 w' evs n"
        by blast
      have tr4: "trace w4 = trace w3"
        and out4: "out w4 = out w3 @ [''Error downloading post '' @ shortcode p @ '': '' @ str_exn e]"
        by (simp_all add: w4_def print_def)
      define evs0 where "evs0 = Pulled p # Download p (shortcode p) (shortcode p) (Some e) # evs"
      have res: "posts_loop E c (map Inr (p # ps)) d w = (w', Inr (d + int (succeeded evs0)))"
        using step run by (simp del: posts_loop.simps add: evs0_def)
      have "loop_post c (p # ps) d w w' evs0 (Suc n)"
        using False Some post tr3 out3 tr4 out4
        by (auto simp add: loop_post_def evs0_def)
      with res show ?thesis
        by blast
    qed
  qed
qed

lemma new_events_append: "trace w' = trace w @ evs \<Longrightarrow> new_events w w' = evs"
  by (simp add: new_events_def)




text \<open>
  C3. The cap is tested after the iterator has handed out the next post, at the top of
  the loop body. With a cap \<open>c > 0\<close> and a listing of more than \<open>c\<close> posts, the posts
  pulled from the listing are the attempted ones and, when the cap stops the loop, one
  more that is pulled and never downloaded; so element \<open>c + 1\<close> of the listing is always
  pulled.
\<close>

theorem pulled_before_cap_check:
  assumes "0 < c" and "nat c < length posts" and "raises_only_Exceptions E"
  shows "\<exists>w' d' evs n. posts_loop E c (map Inr posts) 0 w = (w', Inr d') \<and>
           trace w' = trace w @ evs \<and>
           downloads_of evs = take n posts \<and>
           pulls_of evs = take (if n < length posts then Suc n else n) posts \<and>
           nat c < length (pulls_of evs)"
proof -
  from assms(3) have "\<forall>w p t e. download_post E w p t = Some e \<longrightarrow> is_Exception e"
    by (simp add: raises_only_Exceptions_def)
  from posts_loop_char [OF this, of c posts 0 w] obtain w' evs n where
    run: "posts_loop E c (map Inr posts) 0 w = (w', Inr (0 + int (succeeded evs)))"
    and post: "loop_post c posts 0 w w' evs n"
    by blast
  from post have tr: "trace w' = trace w @ evs" and dl: "downloads_of evs = take n posts"
    and pl: "pulls_of evs = take (if n < length posts then Suc n else n) posts"
    and n: "n \<le> length posts"
    and stop: "n < length posts \<longrightarrow> c \<le> int (succeeded evs)"
    by (auto simp add: loop_post_def)
  have "succeeded evs \<le> n"
    using succeeded_le_downloads [of evs] dl n by simp
  with stop assms(1,2) n have "nat c < length (take (if n < length posts then Suc n else n) posts)"
    by auto
  with run tr dl pl show ?thesis
    by auto
qed

text \<open>Cap 1 and three posts, every download succeeding.\<close>

theorem pulled_before_cap_check_witness:
  "(0::int) < 1 \<and> nat 1 < length [post_A, post_B, post_C] \<and> raises_only_Exceptions env_ok \<and>
   (\<exists>w' d' evs n. posts_loop env_ok 1 (map Inr [post_A, post_B, post_C]) 0 world0 = (w', Inr d') \<and>
           trace w' = trace world0 @ evs \<and>
           downloads_of evs = take n [post_A, post_B, post_C] \<and>
           pulls_of evs = take (if n < length [post_A, post_B, post_C] then Suc n else n)
                            [post_A, post_B, post_C] \<and>
           nat 1 < length (pulls_of evs))"
proof -
  have h: "raises_only_Exceptions env_ok"
    by (simp add: raises_only_Exceptions_def env_ok_def)
  have c: "(0::int) < 1" and m: "nat 1 < length [post_A, post_B, post_C]"
    by simp_all
  from pulled_before_cap_check [OF c m h, of world0] h
  show ?thesis
    by simp
qed

text \<open>In that run the second post is pulled, and only the first is downloaded.\<close>

theorem next_element_pulled_counterexample:
  "pulls_of (trace (fst (posts_loop env_ok 1 (map Inr [post_A, post_B, post_C]) 0 world0)))
     = [post_A, post_B] \<and>
   downloads_of (trace (fst (posts_loop env_ok 1 (map Inr [post_A, post_B, post_C]) 0 world0)))
     = [post_A]"
  by code_simp





section \<open>Arguments that are never consulted\<close>

lemma download_post_by_shortcode_save_dir:
  "download_post_by_shortcode E sc d w = download_post_by_shortcode E sc d' w"
  by (simp add: download_post_by_shortcode_def)

lemma download_profile_posts_save_dir:
  "download_profile_posts E t d c b w = download_profile_posts E t d' c b w"
  by (simp add: download_profile_posts_def)

lemma download_profile_posts_flag:
  "download_profile_posts E t d c b w = download_profile_posts E t d c b' w"
  by (simp add: download_profile_posts_def)

lemma main_directory: "main E (a\<lparr>directory := d\<rparr>) w = main E a w"
  unfolding main_def
  by (simp add: download_post_by_shortcode_save_dir [where d = d and d' = "directory a"]
                download_profile_posts_save_dir [where d = d and d' = "directory a"]
           cong: prod.case_cong sum.case_cong if_cong)

lemma main_posts_only: "main E (a\<lparr>posts_only := b\<rparr>) w = main E a w"
  unfolding main_def
  by (simp add: download_profile_posts_flag [where b = b and b' = "posts_only a"]
           cong: prod.case_cong sum.case_cong if_cong)

lemma download_post_by_shortcode_targets:
  "\<exists>evs. trace (fst (download_post_by_shortcode E sc d w)) = trace w @ evs \<and>
         list_all (target_is sc) evs"
  by (simp add: download_post_by_shortcode_def Let_def print_def record_event_def
        split: sum.split exn.split option.split)

lemma posts_loop_targets:
  "\<exists>evs. trace (fst (posts_loop E c l d w)) = trace w @ evs \<and> list_all target_is_shortcode evs"
proof (induction l arbitrary: d w)
  case Nil
  show ?case
    by simp
next
  case (Cons x l)
  show ?case
  proof (cases x)
    case (Inl e)
    then show ?thesis
      by simp
  next
    case (Inr p)
    define w0 where "w0 = record_event (Pulled p) w"
    define w1 where "w1 = print (''Downloading post '' @ shortcode p @ '' from '' @ date p) w0"
    define w2 where "w2 = w1\<lparr>filename_pattern := shortcode p\<rparr>"
    define r where "r = download_post E w2 p (shortcode p)"
    define w3 where "w3 = record_event (Download p (shortcode p) (filename_pattern w2) r) w2"
    define w4 where "w4 = w3\<lparr>filename_pattern := filename_pattern w1\<rparr>"
    define w5 where "w5 = (\<lambda>e. print (''Error downloading post '' @ shortcode p @ '': '' @ str_exn e) w3)"
    have tr0: "trace w0 = trace w @ [Pulled p]"
      by (simp add: w0_def record_event_def)
    have tr3: "trace w3 = trace w @ [Pulled p, Download p (shortcode p) (shortcode p) r]"
      by (simp add: w3_def w2_def w1_def w0_def record_event_def print_def)
    have tr4: "trace w4 = trace w3" and tr5: "trace (w5 e) = trace w3" for e
      by (simp_all add: w4_def w5_def print_def)
    have good: "list_all target_is_shortcode [Pulled p, Download p (shortcode p) (shortcode p) r]"
      by simp
    have "fst (posts_loop E c (x # l) d w) = w0 \<or> fst (posts_loop E c (x # l) d w) = w3 \<or>
          fst (posts_loop E c (x # l) d w) = fst (posts_loop E c l (d + 1) w4) \<or>
          (\<exists>e. fst (posts_loop E c (x # l) d w) = fst (posts_loop E c l d (w5 e)))"
      unfolding Inr w5_def w4_def w3_def r_def w2_def w1_def w0_def
      by (auto simp add: Let_def split: option.splits)
    then consider (brk) "fst (posts_loop E c (x # l) d w) = w0"
      | (fatal) "fst (posts_loop E c (x # l) d w) = w3"
      | (ok) "fst (posts_loop E c (x # l) d w) = fst (posts_loop E c l (d + 1) w4)"
      | (caught) e where "fst (posts_loop E c (x # l) d w) = fst (posts_loop E c l d (w5 e))"
      by blast
    then show ?thesis
    proof cases
      case brk
      with tr0 show ?thesis
        by simp
    next
      case fatal
      with tr3 show ?thesis
        by simp
    next
      case ok
      from Cons.IH [of "d + 1" w4] obtain evs where
        "trace (fst (posts_loop E c l (d + 1) w4)) = trace w4 @ evs"
        and "list_all target_is_shortcode evs"
        by blast
      with ok tr3 tr4 have
        "trace (fst (posts_loop E c (x # l) d w))
           = trace w @ ([Pulled p, Download p (shortcode p) (shortcode p) r] @ evs)"
        and "list_all target_is_shortcode ([Pulled p, Download p (shortcode p) (shortcode p) r] @ evs)"
        by simp_all
      then show ?thesis
        by blast
    next
      case caught
      from Cons.IH [of d "w5 e"] obtain evs where
        "trace (fst (posts_loop E c l d (w5 e))) = trace (w5 e) @ evs"
        and "list_all target_is_shortcode evs"
        by blast
      with caught tr3 tr5 have
        "trace (fst (posts_loop E c (x # l) d w))
           = trace w @ ([Pulled p, Download p (shortcode p) (shortcode p) r] @ evs)"
        and "list_all target_is_shortcode ([Pulled p, Download p (shortcode p) (shortcode p) r] @ evs)"
        by simp_all
      then show ?thesis
        by blast
    qed
  qed
qed

lemma download_profile_posts_targets:
  "\<exists>evs. trace (fst (download_profile_posts E t sd c b w)) = trace w @ evs \<and>
         list_all target_is_shortcode evs"
proof (cases "from_username E w t")
  case (Inl e)
  then have "trace (fst (download_profile_posts E t sd c b w)) = trace w @ []"
    by (simp add: download_profile_posts_def print_def split: exn.splits)
  then show ?thesis
    by (intro exI [of _ "[]"]) simp
next
  case (Inr posts)
  define w1 where "w1 = print (''Downloading posts from @'' @ t @ ''...'') w"
  from posts_loop_targets [of E c posts 0 w1] obtain evs where
    tr: "trace (fst (posts_loop E c posts 0 w1)) = trace w @ evs"
    and good: "list_all target_is_shortcode evs"
    by (auto simp add: w1_def print_def)
  obtain w2 r where run: "posts_loop E c posts 0 w1 = (w2, r)"
    by (cases "posts_loop E c posts 0 w1")
  with tr have "trace w2 = trace w @ evs"
    by simp
  with Inr run have "trace (fst (download_profile_posts E t sd c b w)) = trace w @ evs"
    unfolding download_profile_posts_def w1_def
    by (simp add: print_def split: sum.splits exn.splits)
  with good show ?thesis
    by blast
qed

text \<open>
  C9. The output directory has no effect. A run of the script does not depend on the
  value of \<open>--directory\<close>, and \<open>download_post_by_shortcode\<close> and \<open>download_profile_posts\<close> do
  not depend on \<open>save_dir\<close>. Every \<open>download_post\<close> they call has as target the bare
  shortcode, a path relative to the current directory: the shortcode asked for on the
  shortcode path, the post's own shortcode in the profile loop.
\<close>

theorem directory_has_no_effect:
  "script E (a\<lparr>directory := d\<rparr>) w = script E a w \<and>
   download_post_by_shortcode E sc d w = download_post_by_shortcode E sc d' w \<and>
   download_profile_posts E t d c b w = download_profile_posts E t d' c b w \<and>
   list_all (target_is sc) (new_events w (fst (download_post_by_shortcode E sc d w))) \<and>
   list_all target_is_shortcode (new_events w (fst (download_profile_posts E t d c b w)))"
proof -
  have "script E (a\<lparr>directory := d\<rparr>) w = script E a w"
    by (simp add: script_def main_directory)
  moreover have "list_all (target_is sc) (new_events w (fst (download_post_by_shortcode E sc d w)))"
    using download_post_by_shortcode_targets [of E sc d w] by (auto simp add: new_events_def)
  moreover have "list_all target_is_shortcode (new_events w (fst (download_profile_posts E t d c b w)))"
    using download_profile_posts_targets [of E t d c b w] by (auto simp add: new_events_def)
  ultimately show ?thesis
    using download_post_by_shortcode_save_dir [of E sc d w d']
      download_profile_posts_save_dir [of E t d c b w d']
    by blast
qed

text \<open>A profile run and a single download with the directory \<open>elsewhere\<close>.\<close>

theorem directory_has_no_effect_witness:
  "script env_fail_A (args0\<lparr>target := Some ''someone'', directory := ''elsewhere''\<rparr>) world0
     = script env_fail_A (args0\<lparr>target := Some ''someone''\<rparr>) world0 \<and>
   list_all (target_is ''BBB222'')
     (new_events world0 (fst (download_post_by_shortcode env_fail_A ''BBB222'' ''elsewhere'' world0))) \<and>
   list_all target_is_shortcode
     (new_events world0 (fst (download_profile_posts env_fail_A ''someone'' ''elsewhere'' 0 False world0)))"
  using directory_has_no_effect [where E = env_fail_A and w = world0 and d = "''elsewhere''"
      and a = "args0\<lparr>target := Some ''someone''\<rparr>" and sc = "''BBB222''"
      and t = "''someone''" and c = 0 and b = False]
  by simp

text \<open>
  C10. The posts-only flag has no effect: \<open>download_profile_posts\<close> gives the same world
  and the same result whether \<open>posts_only\<close> is true or false, and a whole run of the
  script does not depend on the value of the flag.
\<close>

theorem posts_only_has_no_effect:
  "download_profile_posts E t d c True w = download_profile_posts E t d c False w \<and>
   script E (a\<lparr>posts_only := b\<rparr>) w = script E a w"
  by (simp add: script_def main_posts_only
                download_profile_posts_flag [where b = True and b' = False])

section \<open>How the process ends\<close>

text \<open>
  C4. A shortcode file that does not exist does not make the run fail. Once the loader
  is created, \<open>download_shortcodes_from_file\<close> tests the path first; when it does not
  exist, it prints that the file was not found and returns, and \<open>main\<close> returns after
  it: nothing is looked up or downloaded, and the process ends with exit status 0.
\<close>

theorem missing_file_exits_normally:
  assumes "truthy (shortcodes_file a)"
    and "\<not> path_exists E (the (shortcodes_file a))"
    and "create_instance E (username a) w = (w1, Inr ())"
  shows "script E a w =
           (print (''Shortcode file '' @ [CHR 0x27] @ the (shortcodes_file a) @ [CHR 0x27]
                   @ '' not found.'') w1, 0) \<and>
         trace (fst (script E a w)) = trace w1"
  using assms by (simp add: script_def main_def download_shortcodes_from_file_def print_def)

text \<open>The file \<open>missing.txt\<close> does not exist, and no user name is given.\<close>

theorem missing_file_exits_normally_witness:
  "truthy (shortcodes_file (args0\<lparr>shortcodes_file := Some ''missing.txt''\<rparr>)) \<and>
   \<not> path_exists env_ok (the (shortcodes_file (args0\<lparr>shortcodes_file := Some ''missing.txt''\<rparr>))) \<and>
   create_instance env_ok (username (args0\<lparr>shortcodes_file := Some ''missing.txt''\<rparr>)) world0
     = (world0, Inr ()) \<and>
   script env_ok (args0\<lparr>shortcodes_file := Some ''missing.txt''\<rparr>) world0 =
     (print (''Shortcode file '' @ [CHR 0x27] @ ''missing.txt'' @ [CHR 0x27] @ '' not found.'') world0, 0)"
proof -
  let ?a = "args0\<lparr>shortcodes_file := Some ''missing.txt''\<rparr>"
  have 1: "truthy (shortcodes_file ?a)"
    by simp
  have 2: "\<not> path_exists env_ok (the (shortcodes_file ?a))"
    by (simp add: env_ok_def)
  have 3: "create_instance env_ok (username ?a) world0 = (world0, Inr ())"
    by (simp add: create_instance_def args0_def world0_def)
  from missing_file_exits_normally [OF 1 2 3] 1 2 3 show ?thesis
    by simp
qed

text \<open>The exit status of that run is 0.\<close>

theorem missing_file_status_counterexample:
  "\<not> path_exists env_ok ''missing.txt'' \<and>
   snd (script env_ok (args0\<lparr>shortcodes_file := Some ''missing.txt''\<rparr>) world0) = 0"
  by code_simp

text \<open>
  C7. A post URL from which no shortcode can be extracted ends the run with a failure
  status. Once the loader is created, \<open>main\<close> prints that the shortcode could not be
  extracted and calls \<open>sys.exit(1)\<close>: nothing is looked up or downloaded, and the
  process ends with exit status 1.
\<close>

theorem unresolved_url_exits_with_failure:
  assumes "\<not> truthy (shortcodes_file a)"
    and "truthy (post_url a)"
    and "extract_shortcode_from_url (the (post_url a)) = None"
    and "create_instance E (username a) w = (w1, Inr ())"
  shows "script E a w =
           (print ''Error: Could not extract shortcode from the provided URL'' w1, 1) \<and>
         trace (fst (script E a w)) = trace w1"
  using assms by (simp add: script_def main_def print_def)

text \<open>The URL \<open>https://example.com/x\<close> has no shortcode, and no user name is given.\<close>

theorem unresolved_url_exits_with_failure_witness:
  "\<not> truthy (shortcodes_file (args0\<lparr>post_url := Some ''https://example.com/x''\<rparr>)) \<and>
   truthy (post_url (args0\<lparr>post_url := Some ''https://example.com/x''\<rparr>)) \<and>
   extract_shortcode_from_url (the (post_url (args0\<lparr>post_url := Some ''https://example.com/x''\<rparr>)))
     = None \<and>
   create_instance env_ok (username (args0\<lparr>post_url := Some ''https://example.com/x''\<rparr>)) world0
     = (world0, Inr ()) \<and>
   script env_ok (args0\<lparr>post_url := Some ''https://example.com/x''\<rparr>) world0 =
     (print ''Error: Could not extract shortcode from the provided URL'' world0, 1)"
proof -
  let ?a = "args0\<lparr>post_url := Some ''https://example.com/x''\<rparr>"
  have 1: "\<not> truthy (shortcodes_file ?a)"
    by (simp add: args0_def)
  have 2: "truthy (post_url ?a)"
    by simp
  have "extract_shortcode_from_url ''https://example.com/x'' = None"
    by code_simp
  then have 3: "extract_shortcode_from_url (the (post_url ?a)) = None"
    by simp
  have 4: "create_instance env_ok (username ?a) world0 = (world0, Inr ())"
    by (simp add: create_instance_def args0_def world0_def)
  from unresolved_url_exits_with_failure [OF 1 2 3 4] 1 2 3 4 show ?thesis
    by simp
qed

text \<open>The exit status of that run is 1.\<close>

theorem unresolved_url_status_counterexample:
  "extract_shortcode_from_url ''https://example.com/x'' = None \<and>
   snd (script env_ok (args0\<lparr>post_url := Some ''https://example.com/x''\<rparr>) world0) = 1"
  by code_simp

section \<open>The loader's filename pattern\<close>

text \<open>
  C8. The assignment that puts \<open>orig_pattern\<close> back follows \<open>download_post\<close> inside the
  \<open>try\<close> block, so it is skipped when the download raises. Starting from the default
  pattern, a download of \<open>AAA111\<close> that raises leaves \<open>filename_pattern\<close> equal to
  \<open>AAA111\<close>, on the shortcode path and in the profile loop alike.
\<close>

theorem filename_pattern_after_failed_download:
  "filename_pattern world0 = ''{date_utc}_UTC'' \<and>
   download_post env_fail_A (world0\<lparr>filename_pattern := ''AAA111''\<rparr>) post_A ''AAA111''
     = Some (ConnectionException ''timeout'') \<and>
   filename_pattern (fst (download_post_by_shortcode env_fail_A ''AAA111'' ''downloads'' world0))
     = ''AAA111'' \<and>
   filename_pattern (fst (posts_loop env_fail_A 0 [Inr post_A] 0 world0)) = ''AAA111''"
  by code_simp

end
